theory Spec2Isabelle
  imports Complex_Main "HOL-Library.Code_Target_Numeral"
begin

section \<open>JavaScript values carried by socket events\<close>

text \<open>
  The payload of an inbound event is a value decoded from JSON; a listener that is called
  without an argument sees \<open>undefined\<close>. A number is a double: \<open>Finite q\<close> with \<open>q\<close> the
  exact value of the double (zero is not signed), or an infinity, which decoding yields
  for a literal beyond the range; JSON carries no NaN. A string is the list of the bytes
  of its UTF-8 encoding. An object is its list of own properties in the order of the
  text, a later duplicate key overriding an earlier one.
\<close>

datatype jsnum = Finite rat | PosInfinity | NegInfinity

datatype jsval =
    JUndefined
  | JNull
  | JBool bool
  | JNum jsnum
  | JStr string
  | JArr "jsval list"
  | JObj "(string \<times> jsval) list"

text \<open>
  The exceptions that these listeners can raise are all \<open>TypeError\<close>s: a property read
  on \<open>undefined\<close> or \<open>null\<close> (with the property's name), a call of something that is not
  a function, and a conversion of an object that has no callable \<open>toString\<close>.
\<close>

datatype type_error = ReadOfNullish string | NotAFunction string | NoPrimitiveValue

datatype error = TypeError type_error

text \<open>
  Property read \<open>v.k\<close>. It throws on \<open>undefined\<close> and \<open>null\<close>; on an object it is the own
  property or \<open>undefined\<close>; on every other value it is \<open>undefined\<close>. The source reads only
  the names \<open>chat\<close>, \<open>users\<close>, \<open>sender\<close> and \<open>_id\<close>, which no prototype, array or string
  defines, so inherited properties are not represented.
\<close>

fun get_prop :: "jsval \<Rightarrow> string \<Rightarrow> error + jsval" where
  "get_prop JUndefined k = Inl (TypeError (ReadOfNullish k))"
| "get_prop JNull k = Inl (TypeError (ReadOfNullish k))"
| "get_prop (JObj fs) k = Inr (case map_of (rev fs) k of None \<Rightarrow> JUndefined | Some v \<Rightarrow> v)"
| "get_prop v k = Inr JUndefined"

text \<open>Truthiness, as the test \<open>!chat.users\<close> uses it.\<close>

fun truthy :: "jsval \<Rightarrow> bool" where
  "truthy JUndefined = False"
| "truthy JNull = False"
| "truthy (JBool b) = b"
| "truthy (JNum n) = (n \<noteq> Finite 0)"
| "truthy (JStr s) = (s \<noteq> [])"
| "truthy (JArr xs) = True"
| "truthy (JObj fs) = True"

subsection \<open>Rounding to a double\<close>

text \<open>
  The double nearest to a positive fraction \<open>p / q\<close>, ties going to the even significand:
  53 significant bits, the least exponent that of the subnormal numbers, and infinity from
  \<open>2^1024\<close> on. \<open>round_double\<close> is the number that decoding yields for a JSON literal of
  the given value.
\<close>

fun negate :: "jsnum \<Rightarrow> jsnum" where
  "negate (Finite q) = Finite (- q)"
| "negate PosInfinity = NegInfinity"
| "negate NegInfinity = PosInfinity"

fun bit_length :: "nat \<Rightarrow> nat" where
  "bit_length n = (if n = 0 then 0 else Suc (bit_length (n div 2)))"

declare bit_length.simps [simp del]

definition floor_log2 :: "nat \<Rightarrow> nat \<Rightarrow> int" where
  "floor_log2 p q =
     (let d = int (bit_length p) - int (bit_length q)
      in if q * 2 ^ nat d \<le> p * 2 ^ nat (- d) then d else d - 1)"

definition round_half_even :: "nat \<Rightarrow> nat \<Rightarrow> nat" where
  "round_half_even n d =
     (let f = n div d; r = n mod d
      in if 2 * r < d then f
         else if d < 2 * r then f + 1
         else if even f then f else f + 1)"

definition round_pos :: "nat \<Rightarrow> nat \<Rightarrow> jsnum" where
  "round_pos p q =
     (let e = floor_log2 p q in
      if 1024 \<le> e then PosInfinity
      else
        let sh = max e (- 1022) - 52;
            m = round_half_even (p * 2 ^ nat (- sh)) (q * 2 ^ nat sh)
        in if 0 \<le> sh
           then (if 2 ^ 1024 \<le> m * 2 ^ nat sh then PosInfinity
                 else Finite (of_nat (m * 2 ^ nat sh)))
           else Finite (of_nat m / of_nat (2 ^ nat (- sh))))"

definition round_fraction :: "nat \<Rightarrow> nat \<Rightarrow> jsnum" where
  "round_fraction p q = (if p = 0 then Finite 0 else round_pos p q)"

definition round_double :: "rat \<Rightarrow> jsnum" where
  "round_double x =
     (let (a, b) = quotient_of x in
      if 0 \<le> a then round_fraction (nat a) (nat b)
      else negate (round_fraction (nat (- a)) (nat b)))"

definition json_number :: "rat \<Rightarrow> jsval" where
  "json_number x = JNum (round_double x)"


subsection \<open>Strings to numbers\<close>

text \<open>
  The white space that the conversion of a string to a number trims, as UTF-8: tab, line
  feed, vertical tab, form feed, carriage return, space, no-break space, the other space
  separators of Unicode, the line and paragraph separators and the byte order mark.
\<close>

definition white_space :: "string list" where
  "white_space =
     [[CHR 0x09], [CHR 0x0A], [CHR 0x0B], [CHR 0x0C], [CHR 0x0D], [CHR 0x20],
      [CHR 0xC2, CHR 0xA0], [CHR 0xE1, CHR 0x9A, CHR 0x80],
      [CHR 0xE2, CHR 0x80, CHR 0x80], [CHR 0xE2, CHR 0x80, CHR 0x81],
      [CHR 0xE2, CHR 0x80, CHR 0x82], [CHR 0xE2, CHR 0x80, CHR 0x83],
      [CHR 0xE2, CHR 0x80, CHR 0x84], [CHR 0xE2, CHR 0x80, CHR 0x85],
      [CHR 0xE2, CHR 0x80, CHR 0x86], [CHR 0xE2, CHR 0x80, CHR 0x87],
      [CHR 0xE2, CHR 0x80, CHR 0x88], [CHR 0xE2, CHR 0x80, CHR 0x89],
      [CHR 0xE2, CHR 0x80, CHR 0x8A], [CHR 0xE2, CHR 0x80, CHR 0xA8],
      [CHR 0xE2, CHR 0x80, CHR 0xA9], [CHR 0xE2, CHR 0x80, CHR 0xAF],
      [CHR 0xE2, CHR 0x81, CHR 0x9F], [CHR 0xE3, CHR 0x80, CHR 0x80],
      [CHR 0xEF, CHR 0xBB, CHR 0xBF]]"

text \<open>\<open>strip\<close> removes the leading occurrences of the given byte sequences.\<close>

function strip :: "string list \<Rightarrow> string \<Rightarrow> string" where
  "strip ws s =
     (case find (\<lambda>w. w \<noteq> [] \<and> take (length w) s = w) ws of
        None \<Rightarrow> s
      | Some w \<Rightarrow> strip ws (drop (length w) s))"
  by pat_completeness auto
termination
proof (relation "measure (\<lambda>(ws, s). length s)")
  show "wf (measure (\<lambda>(ws, s). length s))" by simp
next
  fix ws :: "string list" and s w :: string
  assume "find (\<lambda>w. w \<noteq> [] \<and> take (length w) s = w) ws = Some w"
  then have w: "w \<noteq> []" and t: "take (length w) s = w" by (auto simp: find_Some_iff)
  from arg_cong [OF t, of length] have "length w \<le> length s" by simp
  with w show "((ws, drop (length w) s), (ws, s)) \<in> measure (\<lambda>(ws, s). length s)"
    by (cases w) auto
qed

declare strip.simps [simp del]

definition trim :: "string \<Rightarrow> string" where
  "trim s = rev (strip (map rev white_space) (rev (strip white_space s)))"

text \<open>
  Digits and their values in a base of at most 16; a run of digits is read most
  significant first.
\<close>

definition digit_of :: "char \<Rightarrow> nat option" where
  "digit_of ch =
     (let n = (of_char ch :: nat) in
      if 48 \<le> n \<and> n \<le> 57 then Some (n - 48)
      else if 97 \<le> n \<and> n \<le> 102 then Some (n - 87)
      else if 65 \<le> n \<and> n \<le> 70 then Some (n - 55)
      else None)"

definition is_digit_in :: "nat \<Rightarrow> char \<Rightarrow> bool" where
  "is_digit_in base ch = (case digit_of ch of None \<Rightarrow> False | Some d \<Rightarrow> d < base)"

definition digits_value :: "nat \<Rightarrow> string \<Rightarrow> nat" where
  "digits_value base ds =
     foldl (\<lambda>acc ch. base * acc + (case digit_of ch of None \<Rightarrow> 0 | Some d \<Rightarrow> d)) 0 ds"

definition all_digits :: "nat \<Rightarrow> string \<Rightarrow> bool" where
  "all_digits base ds = (ds \<noteq> [] \<and> list_all (is_digit_in base) ds)"

text \<open>
  The grammar of numeric strings: after trimming, the empty string is 0; a prefix \<open>0x\<close>,
  \<open>0o\<close> or \<open>0b\<close> (of either case) starts an unsigned integer in that base; otherwise an
  optional sign precedes \<open>Infinity\<close> or a decimal literal with digits before or after an
  optional point and an optional exponent. Every other string is NaN, here \<open>None\<close>. The
  value is rounded to the nearest double, which the engine of Node does for literals of
  any length.
\<close>

definition exponent_part :: "string \<Rightarrow> int option" where
  "exponent_part r =
     (case r of
        [] \<Rightarrow> Some 0
      | ch # ds \<Rightarrow>
          if ch = CHR ''e'' \<or> ch = CHR ''E'' then
            (case ds of
               [] \<Rightarrow> None
             | sg # ds' \<Rightarrow>
                 if sg = CHR ''-'' then
                   (if all_digits 10 ds' then Some (- int (digits_value 10 ds')) else None)
                 else if sg = CHR ''+'' then
                   (if all_digits 10 ds' then Some (int (digits_value 10 ds')) else None)
                 else (if all_digits 10 ds then Some (int (digits_value 10 ds)) else None))
          else None)"

definition unsigned_decimal :: "string \<Rightarrow> jsnum option" where
  "unsigned_decimal u =
     (if u = ''Infinity'' then Some PosInfinity
      else
        let ip = takeWhile (is_digit_in 10) u;
            r1 = dropWhile (is_digit_in 10) u;
            fp = (case r1 of [] \<Rightarrow> []
                  | ch # r \<Rightarrow> if ch = CHR ''.'' then takeWhile (is_digit_in 10) r else []);
            r2 = (case r1 of [] \<Rightarrow> []
                  | ch # r \<Rightarrow> if ch = CHR ''.'' then dropWhile (is_digit_in 10) r else r1)
        in if ip = [] \<and> fp = [] then None
           else (case exponent_part r2 of
                   None \<Rightarrow> None
                 | Some ex \<Rightarrow>
                     let m = digits_value 10 (ip @ fp); e = ex - int (length fp)
                     in Some (if 0 \<le> e then round_fraction (m * 10 ^ nat e) 1
                              else round_fraction m (10 ^ nat (- e)))))"

definition prefixed :: "string \<Rightarrow> (nat \<times> string) option" where
  "prefixed t =
     (case t of
        z # x # ds \<Rightarrow>
          if z = CHR ''0'' \<and> (x = CHR ''x'' \<or> x = CHR ''X'') then Some (16, ds)
          else if z = CHR ''0'' \<and> (x = CHR ''o'' \<or> x = CHR ''O'') then Some (8, ds)
          else if z = CHR ''0'' \<and> (x = CHR ''b'' \<or> x = CHR ''B'') then Some (2, ds)
          else None
      | _ \<Rightarrow> None)"

definition to_number :: "string \<Rightarrow> jsnum option" where
  "to_number s =
     (let t = trim s in
      case t of
        [] \<Rightarrow> Some (Finite 0)
      | ch # r \<Rightarrow>
          (case prefixed t of
             Some (base, ds) \<Rightarrow>
               if all_digits base ds then Some (round_fraction (digits_value base ds) 1) else None
           | None \<Rightarrow>
               if ch = CHR ''-'' then map_option negate (unsigned_decimal r)
               else if ch = CHR ''+'' then unsigned_decimal r
               else unsigned_decimal t))"


subsection \<open>Numbers to strings\<close>

text \<open>
  The string of a number: the shortest run of decimal digits that rounds back to the
  double, the closest to it when several of that length do, written plainly when the
  decimal exponent is between -6 and 21 and in exponent form outside.
\<close>

definition digit_char :: "nat \<Rightarrow> char" where
  "digit_char d = char_of (48 + d)"

fun digits :: "nat \<Rightarrow> string" where
  "digits n = (if n < 10 then [digit_char n] else digits (n div 10) @ [digit_char (n mod 10)])"

declare digits.simps [simp del]

definition floor_log10 :: "nat \<Rightarrow> nat \<Rightarrow> int" where
  "floor_log10 a b =
     (let d = int (length (digits a)) - int (length (digits b))
      in if b * 10 ^ nat d \<le> a * 10 ^ nat (- d) then d else d - 1)"

definition rounds_to :: "nat \<Rightarrow> nat \<Rightarrow> nat \<Rightarrow> int \<Rightarrow> bool" where
  "rounds_to a b s t =
     (round_fraction (s * 10 ^ nat t) (10 ^ nat (- t)) = Finite (of_nat a / of_nat b))"

definition candidate :: "nat \<Rightarrow> nat \<Rightarrow> int \<Rightarrow> nat \<Rightarrow> (nat \<times> int) option" where
  "candidate a b n0 k =
     (let t = n0 - int k;
          lo = (a * 10 ^ nat (- t)) div (b * 10 ^ nat t);
          hi = lo + 1;
          up = (if hi = 10 ^ k then (10 ^ (k - 1), t + 1) else (hi, t));
          lo_ok = rounds_to a b lo t;
          hi_ok = rounds_to a b hi t;
          twice = 2 * a * 10 ^ nat (- t);
          mid = (lo + hi) * 10 ^ nat t * b
      in if lo_ok \<and> hi_ok then
           (if twice < mid then Some (lo, t)
            else if mid < twice then Some up
            else if even lo then Some (lo, t) else Some up)
         else if lo_ok then Some (lo, t)
         else if hi_ok then Some up
         else None)"

fun shortest :: "nat \<Rightarrow> nat \<Rightarrow> int \<Rightarrow> nat \<Rightarrow> nat \<Rightarrow> nat \<times> int \<times> nat" where
  "shortest a b n0 k 0 = ((a * 10 ^ nat (int k - n0)) div (b * 10 ^ nat (n0 - int k)), n0 - int k, k)"
| "shortest a b n0 k (Suc fuel) =
     (case candidate a b n0 k of
        Some (s, t) \<Rightarrow> (s, t, k)
      | None \<Rightarrow> shortest a b n0 (Suc k) fuel)"

definition positive_text :: "nat \<Rightarrow> nat \<Rightarrow> string" where
  "positive_text a b =
     (let n0 = floor_log10 a b + 1;
          (s, t, k) = shortest a b n0 1 17;
          ds = digits s;
          n = t + int k
      in if int k \<le> n \<and> n \<le> 21 then ds @ replicate (nat (n - int k)) CHR ''0''
         else if 0 < n \<and> n \<le> 21 then take (nat n) ds @ ''.'' @ drop (nat n) ds
         else if - 6 < n \<and> n \<le> 0 then ''0.'' @ replicate (nat (- n)) CHR ''0'' @ ds
         else
           let ex = (if n - 1 < 0 then CHR ''-'' # digits (nat (1 - n))
                     else CHR ''+'' # digits (nat (n - 1)))
           in if k = 1 then ds @ ''e'' @ ex
              else take 1 ds @ ''.'' @ drop 1 ds @ ''e'' @ ex)"

fun number_text :: "jsnum \<Rightarrow> string" where
  "number_text PosInfinity = ''Infinity''"
| "number_text NegInfinity = ''-Infinity''"
| "number_text (Finite x) =
     (let (a, b) = quotient_of x in
      if a = 0 then ''0''
      else if 0 < a then positive_text (nat a) (nat b)
      else CHR ''-'' # positive_text (nat (- a)) (nat b))"


subsection \<open>Conversion to string\<close>

fun sequence :: "(error + 'a) list \<Rightarrow> error + 'a list" where
  "sequence [] = Inr []"
| "sequence (Inl e # rs) = Inl e"
| "sequence (Inr x # rs) = (case sequence rs of Inl e \<Rightarrow> Inl e | Inr xs \<Rightarrow> Inr (x # xs))"

fun join_comma :: "string list \<Rightarrow> string" where
  "join_comma [] = []"
| "join_comma [s] = s"
| "join_comma (s # t # ts) = s @ '','' @ join_comma (t # ts)"

text \<open>
  \<open>ToString\<close>. An array is the comma-joined strings of its elements, \<open>null\<close> and
  \<open>undefined\<close> elements giving the empty string. A plain object is \<open>[object Object]\<close>
  through the inherited \<open>toString\<close>; a decoded object whose own property \<open>toString\<close>
  shadows it has no callable conversion, and the conversion throws.
\<close>

fun to_string :: "jsval \<Rightarrow> error + string" where
  "to_string JUndefined = Inr ''undefined''"
| "to_string JNull = Inr ''null''"
| "to_string (JBool b) = Inr (if b then ''true'' else ''false'')"
| "to_string (JNum n) = Inr (number_text n)"
| "to_string (JStr s) = Inr s"
| "to_string (JArr xs) =
     (case sequence (map (\<lambda>x. if x = JUndefined \<or> x = JNull then Inr [] else to_string x) xs) of
        Inl e \<Rightarrow> Inl e
      | Inr ss \<Rightarrow> Inr (join_comma ss))"
| "to_string (JObj fs) =
     (if ''toString'' \<in> fst ` set fs
      then Inl (TypeError NoPrimitiveValue)
      else Inr ''[object Object]'')"

subsection \<open>Loose equality\<close>

fun is_ref :: "jsval \<Rightarrow> bool" where
  "is_ref (JArr xs) = True"
| "is_ref (JObj fs) = True"
| "is_ref v = False"

fun is_nullish :: "jsval \<Rightarrow> bool" where
  "is_nullish JUndefined = True"
| "is_nullish JNull = True"
| "is_nullish v = False"

text \<open>
  Comparison of two primitives by \<open>==\<close>, neither of them \<open>undefined\<close> or \<open>null\<close>: a boolean
  is compared as the number 0 or 1, two numbers and two strings by value, a number and a
  string by the number that the string converts to.
\<close>

fun bool_to_number :: "jsval \<Rightarrow> jsval" where
  "bool_to_number (JBool b) = JNum (Finite (if b then 1 else 0))"
| "bool_to_number v = v"

fun number_string_eq :: "jsval \<Rightarrow> jsval \<Rightarrow> bool" where
  "number_string_eq (JNum a) (JNum b) = (a = b)"
| "number_string_eq (JStr a) (JStr b) = (a = b)"
| "number_string_eq (JNum a) (JStr s) = (to_number s = Some a)"
| "number_string_eq (JStr s) (JNum a) = (to_number s = Some a)"
| "number_string_eq x y = False"

definition prim_loose_eq :: "jsval \<Rightarrow> jsval \<Rightarrow> bool" where
  "prim_loose_eq x y = number_string_eq (bool_to_number x) (bool_to_number y)"

text \<open>
  The operator \<open>==\<close> on two values read from different places of one decoded payload.
  \<open>undefined\<close> and \<open>null\<close> equal each other and nothing else. Two arrays or objects are
  distinct references, hence unequal. An array or object against a primitive is first
  converted to its string, which can throw.
\<close>

definition loose_eq :: "jsval \<Rightarrow> jsval \<Rightarrow> error + bool" where
  "loose_eq x y =
     (if is_nullish x \<or> is_nullish y then Inr (is_nullish x \<and> is_nullish y)
      else if is_ref x \<and> is_ref y then Inr False
      else if is_ref x then
        (case to_string x of Inl e \<Rightarrow> Inl e | Inr s \<Rightarrow> Inr (prim_loose_eq (JStr s) y))
      else if is_ref y then
        (case to_string y of Inl e \<Rightarrow> Inl e | Inr s \<Rightarrow> Inr (prim_loose_eq x (JStr s)))
      else Inr (prim_loose_eq x y))"

section \<open>The server state: room registry, pushes, console, listeners\<close>

text \<open>A connection is identified by the id that the library gives its socket, a string.\<close>

type_synonym conn = string

record push =
  recipient :: conn
  event :: string
  args :: "jsval list"

text \<open>
  The callbacks that the connection handler of \<open>src/index.js\<close> creates, each a distinct
  function object: the five passed to \<open>socket.on\<close> and the one passed to \<open>socket.off\<close>.
\<close>

datatype callback = SetupCb | JoinChatCb | TypingCb | StopTypingCb | NewMessageCb | TeardownCb

type_synonym listeners = "(string \<times> callback) list"

text \<open>
  \<open>rooms\<close> is the library's room registry: the members of a room in the order in which
  they joined. \<open>sent\<close> lists the outbound pushes in the order made, \<open>console\<close> the lines
  written by \<open>console.log\<close>, \<open>listeners\<close> the listener table of each socket, and \<open>ran\<close>
  records each callback invocation.
\<close>

record server =
  rooms :: "jsval \<Rightarrow> conn list"
  sent :: "push list"
  console :: "string list"
  listeners :: "conn \<Rightarrow> listeners"
  ran :: "(conn \<times> callback) list"

definition init_server :: server where
  "init_server = \<lparr>rooms = (\<lambda>r. []), sent = [], console = [], listeners = (\<lambda>c. []), ran = []\<rparr>"

datatype outcome = Returned server | Thrown error server

definition console_log :: "string \<Rightarrow> server \<Rightarrow> server" where
  "console_log line s = s\<lparr>console := console s @ [line]\<rparr>"

subsection \<open>The library calls\<close>

text \<open>
  The socket.io library is not part of the repository's source. Every definition of this
  subsection is modelled from the library, version 4 with its in-memory adapter, and not
  translated from the source: what \<open>socket.join\<close>, \<open>socket.leave\<close>, \<open>socket.emit\<close>,
  \<open>socket.in(room).emit\<close>, \<open>socket.on\<close> and \<open>socket.off\<close> do.

  The registry is keyed by the room identifier as a value. That is the library's key
  comparison for \<open>undefined\<close>, \<open>null\<close>, booleans, numbers and strings. For an array the
  library joins, or broadcasts to, each element (an empty array broadcasts to every
  connection), and it keys an object by reference, a new room for each decoded payload;
  the model keeps an array or an object as one identifier, so it is the library's
  behaviour only for identifiers that are not arrays or objects, which is what the
  properties below assume (\<open>is_ref\<close>).
\<close>

text \<open>Modelled from the library: the members of a room, none for a room never joined.\<close>

definition members :: "server \<Rightarrow> jsval \<Rightarrow> conn list" where
  "members s r = rooms s r"

text \<open>
  Modelled from the library: \<open>socket.join(room)\<close> adds the socket to the room's member
  set, creating the room; a socket that is a member already is not added again.
\<close>

definition sock_join :: "conn \<Rightarrow> jsval \<Rightarrow> server \<Rightarrow> server" where
  "sock_join c r s =
     s\<lparr>rooms := (rooms s)(r := (if c \<in> set (rooms s r) then rooms s r else rooms s r @ [c]))\<rparr>"

text \<open>Modelled from the library: \<open>socket.leave(room)\<close> removes the socket from the room.\<close>

definition sock_leave :: "conn \<Rightarrow> jsval \<Rightarrow> server \<Rightarrow> server" where
  "sock_leave c r s = s\<lparr>rooms := (rooms s)(r := removeAll c (rooms s r))\<rparr>"

text \<open>Modelled from the library: \<open>socket.emit(ev, ...)\<close> is one push, to the socket itself.\<close>

definition sock_emit :: "conn \<Rightarrow> string \<Rightarrow> jsval list \<Rightarrow> server \<Rightarrow> server" where
  "sock_emit c ev as s = s\<lparr>sent := sent s @ [\<lparr>recipient = c, event = ev, args = as\<rparr>]\<rparr>"

text \<open>
  Modelled from the library: \<open>socket.in(room).emit(ev, ...)\<close> is one push to every member
  of the room, in joining order, except the members of the room named by the emitting
  socket's own id. The emitting socket is in that room from its connection on, and any
  other connection can join it by name.
\<close>

definition fanout :: "conn \<Rightarrow> jsval \<Rightarrow> string \<Rightarrow> jsval list \<Rightarrow> server \<Rightarrow> push list" where
  "fanout c r ev as s =
     map (\<lambda>m. \<lparr>recipient = m, event = ev, args = as\<rparr>)
       (filter (\<lambda>m. m \<notin> set (members s (JStr c))) (members s r))"

definition sock_in_emit :: "conn \<Rightarrow> jsval \<Rightarrow> string \<Rightarrow> jsval list \<Rightarrow> server \<Rightarrow> server" where
  "sock_in_emit c r ev as s = s\<lparr>sent := sent s @ fanout c r ev as s\<rparr>"

text \<open>
  Modelled from the library: \<open>socket.on\<close> appends a listener; \<open>socket.off\<close> removes the
  most recently added registration of that very function for the event, and does
  nothing when there is none.
\<close>

definition sock_on :: "string \<Rightarrow> callback \<Rightarrow> listeners \<Rightarrow> listeners" where
  "sock_on ev cb ls = ls @ [(ev, cb)]"

definition sock_off :: "string \<Rightarrow> callback \<Rightarrow> listeners \<Rightarrow> listeners" where
  "sock_off ev cb ls = rev (remove1 (ev, cb) (rev ls))"

section \<open>The listeners of \<open>src/index.js\<close>\<close>

text \<open>\<open>socket.on('setup', (userData) => { socket.join(userData._id); socket.emit('connected') })\<close>\<close>

definition on_setup :: "conn \<Rightarrow> jsval \<Rightarrow> server \<Rightarrow> outcome" where
  "on_setup c userData s =
     (case get_prop userData ''_id'' of
        Inl e \<Rightarrow> Thrown e s
      | Inr uid \<Rightarrow> Returned (sock_emit c ''connected'' [] (sock_join c uid s)))"

text \<open>\<open>socket.on('join chat', (room) => { socket.join(room); console.log('User Joined Room: ' + room) })\<close>\<close>

definition on_join_chat :: "conn \<Rightarrow> jsval \<Rightarrow> server \<Rightarrow> outcome" where
  "on_join_chat c room s =
     (let s1 = sock_join c room s in
      case to_string room of
        Inl e \<Rightarrow> Thrown e s1
      | Inr t \<Rightarrow> Returned (console_log (''User Joined Room: '' @ t) s1))"

text \<open>\<open>socket.on('typing', (room) => socket.in(room).emit('typing'))\<close>, and the same for \<open>stop typing\<close>.\<close>

definition on_typing :: "conn \<Rightarrow> jsval \<Rightarrow> server \<Rightarrow> outcome" where
  "on_typing c room s = Returned (sock_in_emit c room ''typing'' [] s)"

definition on_stop_typing :: "conn \<Rightarrow> jsval \<Rightarrow> server \<Rightarrow> outcome" where
  "on_stop_typing c room s = Returned (sock_in_emit c room ''stop typing'' [] s)"

text \<open>
  The callback of \<open>chat.users.forEach\<close>:
  \<open>if (user._id == newMessageRecieved.sender._id) return;
    socket.in(user._id).emit('message recieved', newMessageRecieved)\<close>.
\<close>

definition for_each_callback :: "conn \<Rightarrow> jsval \<Rightarrow> jsval \<Rightarrow> server \<Rightarrow> outcome" where
  "for_each_callback c newMessageRecieved user s =
     (case get_prop user ''_id'' of
        Inl e \<Rightarrow> Thrown e s
      | Inr uid \<Rightarrow>
     (case get_prop newMessageRecieved ''sender'' of
        Inl e \<Rightarrow> Thrown e s
      | Inr sender \<Rightarrow>
     (case get_prop sender ''_id'' of
        Inl e \<Rightarrow> Thrown e s
      | Inr sid \<Rightarrow>
     (case loose_eq uid sid of
        Inl e \<Rightarrow> Thrown e s
      | Inr True \<Rightarrow> Returned s
      | Inr False \<Rightarrow> Returned (sock_in_emit c uid ''message recieved'' [newMessageRecieved] s)))))"

fun for_each :: "conn \<Rightarrow> jsval \<Rightarrow> jsval list \<Rightarrow> server \<Rightarrow> outcome" where
  "for_each c msg [] s = Returned s"
| "for_each c msg (user # users) s =
     (case for_each_callback c msg user s of
        Thrown e s' \<Rightarrow> Thrown e s'
      | Returned s' \<Rightarrow> for_each c msg users s')"

text \<open>
  The \<open>new message\<close> listener:
  \<open>const chat = newMessageRecieved.chat;
    if (!chat.users) return console.log('chat.users not defined');
    chat.users.forEach(...)\<close>.
  Only an array has a callable \<open>forEach\<close>; on any other truthy value the call throws.
\<close>

definition on_new_message :: "conn \<Rightarrow> jsval \<Rightarrow> server \<Rightarrow> outcome" where
  "on_new_message c newMessageRecieved s =
     (case get_prop newMessageRecieved ''chat'' of
        Inl e \<Rightarrow> Thrown e s
      | Inr chat \<Rightarrow>
     (case get_prop chat ''users'' of
        Inl e \<Rightarrow> Thrown e s
      | Inr users \<Rightarrow>
          if \<not> truthy users then Returned (console_log ''chat.users not defined'' s)
          else (case users of
                  JArr us \<Rightarrow> for_each c newMessageRecieved us s
                | _ \<Rightarrow> Thrown (TypeError (NotAFunction ''chat.users.forEach'')) s)))"

text \<open>
  The function passed to \<open>socket.off('setup', ...)\<close>:
  \<open>console.log('USER DISCONNECTED'); socket.leave(userData._id)\<close>.
\<close>

definition teardown :: "conn \<Rightarrow> jsval \<Rightarrow> server \<Rightarrow> outcome" where
  "teardown c userData s =
     (let s1 = console_log ''USER DISCONNECTED'' s in
      case get_prop userData ''_id'' of
        Inl e \<Rightarrow> Thrown e s1
      | Inr uid \<Rightarrow> Returned (sock_leave c uid s1))"

section \<open>Connection handler and event dispatch\<close>

text \<open>
  \<open>io.on('connection', (socket) => ...)\<close>: one console line, five \<open>socket.on\<close> calls and the
  \<open>socket.off\<close> call, on the fresh socket's empty listener table.
\<close>

definition registered :: listeners where
  "registered =
     sock_off ''setup'' TeardownCb
       (sock_on ''new message'' NewMessageCb
         (sock_on ''stop typing'' StopTypingCb
           (sock_on ''typing'' TypingCb
             (sock_on ''join chat'' JoinChatCb
               (sock_on ''setup'' SetupCb [])))))"

definition on_connection :: "conn \<Rightarrow> server \<Rightarrow> server" where
  "on_connection c s =
     (let s1 = console_log ''Connected to socket.io'' s
      in s1\<lparr>listeners := (listeners s1)(c := registered)\<rparr>)"

text \<open>
  Modelled from the library: a new socket joins the room named by its own id, and then
  the handlers of \<open>connection\<close> run, of which the source registers one.
\<close>

definition accept :: "conn \<Rightarrow> server \<Rightarrow> server" where
  "accept c s = on_connection c (sock_join c (JStr c) s)"

fun first_arg :: "jsval list \<Rightarrow> jsval" where
  "first_arg [] = JUndefined"
| "first_arg (a # as) = a"

fun body :: "callback \<Rightarrow> conn \<Rightarrow> jsval \<Rightarrow> server \<Rightarrow> outcome" where
  "body SetupCb = on_setup"
| "body JoinChatCb = on_join_chat"
| "body TypingCb = on_typing"
| "body StopTypingCb = on_stop_typing"
| "body NewMessageCb = on_new_message"
| "body TeardownCb = teardown"

definition invoke :: "callback \<Rightarrow> conn \<Rightarrow> jsval list \<Rightarrow> server \<Rightarrow> outcome" where
  "invoke cb c as s = body cb c (first_arg as) (s\<lparr>ran := ran s @ [(c, cb)]\<rparr>)"

text \<open>
  Modelled from the library: the listeners of an event run in registration order with
  the event's arguments; an exception ends the run.
\<close>

fun run_listeners :: "callback list \<Rightarrow> conn \<Rightarrow> jsval list \<Rightarrow> server \<Rightarrow> outcome" where
  "run_listeners [] c as s = Returned s"
| "run_listeners (cb # cbs) c as s =
     (case invoke cb c as s of
        Thrown e s' \<Rightarrow> Thrown e s'
      | Returned s' \<Rightarrow> run_listeners cbs c as s')"

text \<open>
  An inbound event: the connection it arrives on, its name and its arguments, which are
  decoded JSON values (an acknowledgement function or a binary attachment that a client
  may add is not represented).
\<close>

record inbound =
  from_conn :: conn
  name :: string
  payload :: "jsval list"

definition receive :: "inbound \<Rightarrow> server \<Rightarrow> outcome" where
  "receive ev s =
     run_listeners (map snd (filter (\<lambda>l. fst l = name ev) (listeners s (from_conn ev))))
       (from_conn ev) (payload ev) s"

text \<open>
  What the server process receives over its life: new connections, which are accepted,
  and inbound events on a connection, processed in order. An exception that leaves a
  listener is not caught anywhere in the source, so the run ends there.
\<close>

datatype input = Connection conn | Inbound inbound

fun serve :: "input list \<Rightarrow> server \<Rightarrow> outcome" where
  "serve [] s = Returned s"
| "serve (Connection c # ins) s = serve ins (accept c s)"
| "serve (Inbound ev # ins) s =
     (case receive ev s of
        Thrown e s' \<Rightarrow> Thrown e s'
      | Returned s' \<Rightarrow> serve ins s')"

fun state_of :: "outcome \<Rightarrow> server" where
  "state_of (Returned s) = s"
| "state_of (Thrown e s) = s"

fun returned :: "outcome \<Rightarrow> bool" where
  "returned (Returned s) = True"
| "returned (Thrown e s) = False"

section \<open>Notions used to state the properties\<close>

text \<open>
  The room that one invocation of a callback joins: the identifier read from the payload
  for \<open>setup\<close> (none when the read throws), the argument itself for \<open>join chat\<close>, none
  for the listeners that only emit. \<open>event_room\<close> is the same for an inbound event, by its
  name; \<open>join_opt\<close> is the effect of such a join on the registry.
\<close>

fun joined_room :: "callback \<Rightarrow> jsval \<Rightarrow> jsval option" where
  "joined_room SetupCb a = (case get_prop a ''_id'' of Inl e \<Rightarrow> None | Inr uid \<Rightarrow> Some uid)"
| "joined_room JoinChatCb a = Some a"
| "joined_room cb a = None"

definition event_room :: "inbound \<Rightarrow> jsval option" where
  "event_room ev =
     (if name ev = ''setup'' then joined_room SetupCb (first_arg (payload ev))
      else if name ev = ''join chat'' then joined_room JoinChatCb (first_arg (payload ev))
      else None)"

definition join_opt :: "conn \<Rightarrow> jsval option \<Rightarrow> (jsval \<Rightarrow> conn list) \<Rightarrow> (jsval \<Rightarrow> conn list)" where
  "join_opt c ro rs =
     (case ro of None \<Rightarrow> rs | Some r \<Rightarrow> rs(r := (if c \<in> set (rs r) then rs r else rs r @ [c])))"

text \<open>The rooms named by the \<open>join chat\<close> events of a sequence.\<close>

definition join_chat_rooms :: "inbound list \<Rightarrow> jsval list" where
  "join_chat_rooms evs =
     map (\<lambda>ev. first_arg (payload ev)) (filter (\<lambda>ev. name ev = ''join chat'') evs)"

text \<open>
  Reading the fields of a payload for the statements: \<open>field\<close> is the property read with
  \<open>undefined\<close> where the read would throw, \<open>users_of\<close> the elements of \<open>chat.users\<close> when it
  is an array, \<open>sender_id\<close> the value of \<open>sender._id\<close>.
\<close>

definition field :: "jsval \<Rightarrow> string \<Rightarrow> jsval" where
  "field v k = (case get_prop v k of Inl e \<Rightarrow> JUndefined | Inr x \<Rightarrow> x)"

definition users_of :: "jsval \<Rightarrow> jsval list" where
  "users_of msg = (case field (field msg ''chat'') ''users'' of JArr ds \<Rightarrow> ds | _ \<Rightarrow> [])"

definition sender_id :: "jsval \<Rightarrow> jsval" where
  "sender_id msg = field (field msg ''sender'') ''_id''"

text \<open>The pushes made between a state and a later one.\<close>

definition added :: "server \<Rightarrow> server \<Rightarrow> push list" where
  "added s s' = drop (length (sent s)) (sent s')"

text \<open>
  The pushes of one broadcast of \<open>message recieved\<close> by connection \<open>c\<close>, written out: one
  push to each member of the room that is not in the room named by \<open>c\<close>.
\<close>

definition message_pushes :: "conn \<Rightarrow> jsval \<Rightarrow> jsval \<Rightarrow> server \<Rightarrow> push list" where
  "message_pushes c msg r s =
     map (\<lambda>m. \<lparr>recipient = m, event = ''message recieved'', args = [msg]\<rparr>)
       (filter (\<lambda>m. m \<notin> set (members s (JStr c))) (members s r))"

text \<open>
  The payload that the specification calls well formed: \<open>chat.users\<close> is a collection of
  recipient descriptors, each of which carries a string identifier, and so does \<open>sender\<close>.
\<close>

definition is_descriptor :: "jsval \<Rightarrow> bool" where
  "is_descriptor d = (case get_prop d ''_id'' of Inr (JStr i) \<Rightarrow> True | _ \<Rightarrow> False)"

definition well_formed_message :: "jsval \<Rightarrow> bool" where
  "well_formed_message msg =
     (case get_prop msg ''chat'' of
        Inr chat \<Rightarrow>
          (case get_prop chat ''users'' of
             Inr (JArr ds) \<Rightarrow> list_all is_descriptor ds \<and> is_descriptor (field msg ''sender'')
           | _ \<Rightarrow> False)
      | _ \<Rightarrow> False)"

text \<open>
  A state in which the teardown callback is in no listener table and has left no trace:
  no invocation of it is recorded and its console line was never written.
\<close>

definition quiet :: "server \<Rightarrow> bool" where
  "quiet s \<longleftrightarrow> (\<forall>c. TeardownCb \<notin> snd ` set (listeners s c))
     \<and> TeardownCb \<notin> snd ` set (ran s) \<and> ''USER DISCONNECTED'' \<notin> set (console s)"

text \<open>
  What holds of every state that the server reaches: a connection's listener table is
  empty (not yet accepted) or the one built by the connection handler, an accepted
  connection is in the room named by its own id, and no room lists a member twice.
\<close>

definition sound :: "server \<Rightarrow> bool" where
  "sound s \<longleftrightarrow> (\<forall>c. listeners s c = [] \<or> listeners s c = registered)
     \<and> (\<forall>c. listeners s c = registered \<longrightarrow> c \<in> set (rooms s (JStr c)))
     \<and> (\<forall>r. distinct (rooms s r))"

section \<open>The scenario of the specification\<close>

text \<open>
  The specification calls \<open>userId\<close> the identifier that the source reads from the field
  \<open>_id\<close>, and \<open>messageReceived\<close> the outbound event that the source names
  \<open>message recieved\<close>. A recipient descriptor with identifier \<open>i\<close> is the object
  \<open>{_id: i}\<close>. The two connections of the scenario have the socket ids \<open>C1\<close> and \<open>C2\<close>.
\<close>

definition user_descriptor :: "string \<Rightarrow> jsval" where
  "user_descriptor i = JObj [(''_id'', JStr i)]"

definition scenario_message :: jsval where
  "scenario_message =
     JObj [(''chat'', JObj [(''users'', JArr [user_descriptor ''u1'', user_descriptor ''u2''])]),
           (''sender'', user_descriptor ''u1''),
           (''content'', JStr ''hello'')]"

text \<open>Both connections are accepted, send \<open>setup\<close> as u1 and u2, and join \<open>conv1\<close>.\<close>

definition scenario_prefix :: "input list" where
  "scenario_prefix =
     [Connection ''C1'', Connection ''C2'',
      Inbound \<lparr>from_conn = ''C1'', name = ''setup'', payload = [user_descriptor ''u1'']\<rparr>,
      Inbound \<lparr>from_conn = ''C2'', name = ''setup'', payload = [user_descriptor ''u2'']\<rparr>,
      Inbound \<lparr>from_conn = ''C1'', name = ''join chat'', payload = [JStr ''conv1'']\<rparr>,
      Inbound \<lparr>from_conn = ''C2'', name = ''join chat'', payload = [JStr ''conv1'']\<rparr>]"

text \<open>
  Two sequences of events of connection \<open>C1\<close>: \<open>setup\<close> as u1 and then as u2; and \<open>setup\<close>
  as u1, a \<open>join chat\<close>, and \<open>setup\<close> as u1 again.
\<close>

definition two_setups :: "inbound list" where
  "two_setups =
     [\<lparr>from_conn = ''C1'', name = ''setup'', payload = [user_descriptor ''u1'']\<rparr>,
      \<lparr>from_conn = ''C1'', name = ''setup'', payload = [user_descriptor ''u2'']\<rparr>]"

definition same_setups :: "inbound list" where
  "same_setups =
     [\<lparr>from_conn = ''C1'', name = ''setup'', payload = [user_descriptor ''u1'']\<rparr>,
      \<lparr>from_conn = ''C1'', name = ''join chat'', payload = [JStr ''conv1'']\<rparr>,
      \<lparr>from_conn = ''C1'', name = ''setup'', payload = [user_descriptor ''u1'']\<rparr>]"



definition shared_room_prefix :: "input list" where
  "shared_room_prefix =
     [Connection ''C1'', Connection ''C2'',
      Inbound \<lparr>from_conn = ''C1'', name = ''setup'', payload = [user_descriptor ''u2'']\<rparr>,
      Inbound \<lparr>from_conn = ''C2'', name = ''setup'', payload = [user_descriptor ''u2'']\<rparr>]"

definition own_room_prefix :: "input list" where
  "own_room_prefix =
     [Connection ''C1'', Connection ''C2'',
      Inbound \<lparr>from_conn = ''C2'', name = ''join chat'', payload = [JStr ''C1'']\<rparr>,
      Inbound \<lparr>from_conn = ''C1'', name = ''join chat'', payload = [JStr ''conv1'']\<rparr>,
      Inbound \<lparr>from_conn = ''C2'', name = ''join chat'', payload = [JStr ''conv1'']\<rparr>]"

section \<open>Properties\<close>

lemma registered_eq:
  "registered =
     [(''setup'', SetupCb), (''join chat'', JoinChatCb), (''typing'', TypingCb),
      (''stop typing'', StopTypingCb), (''new message'', NewMessageCb)]"
  by (simp add: registered_def sock_on_def sock_off_def)

lemmas run_defs =
  init_server_def accept_def on_connection_def registered_eq console_log_def receive_def
  invoke_def on_setup_def on_join_chat_def on_typing_def on_stop_typing_def
  on_new_message_def for_each_callback_def sock_join_def sock_emit_def sock_in_emit_def
  fanout_def members_def loose_eq_def prim_loose_eq_def


subsection \<open>Dispatch to the registered listeners\<close>

lemma receive_registered:
  assumes "listeners s c = registered"
  shows "receive \<lparr>from_conn = c, name = ''setup'', payload = as\<rparr> s = invoke SetupCb c as s"
    and "receive \<lparr>from_conn = c, name = ''join chat'', payload = as\<rparr> s = invoke JoinChatCb c as s"
    and "receive \<lparr>from_conn = c, name = ''typing'', payload = as\<rparr> s = invoke TypingCb c as s"
    and "receive \<lparr>from_conn = c, name = ''stop typing'', payload = as\<rparr> s = invoke StopTypingCb c as s"
    and "receive \<lparr>from_conn = c, name = ''new message'', payload = as\<rparr> s = invoke NewMessageCb c as s"
  using assms by (simp_all add: receive_def registered_eq split: outcome.split)

lemma accept_listeners: "listeners (accept c s) c = registered"
  by (simp add: accept_def on_connection_def console_log_def sock_join_def)

lemma accept_init_members:
  "members (accept c init_server) r = (if r = JStr c then [c] else [])"
  by (simp add: accept_def on_connection_def console_log_def sock_join_def init_server_def
      members_def)

lemma scenario_prefix_listeners:
  "listeners (state_of (serve scenario_prefix init_server)) ''C1'' = registered"
  by (simp add: scenario_prefix_def user_descriptor_def run_defs)

lemma scenario_prefix_members:
  "members (state_of (serve scenario_prefix init_server)) (JStr ''conv1'') = [''C1'', ''C2'']"
  "members (state_of (serve scenario_prefix init_server)) (JStr ''C1'') = [''C1'']"
  "members (state_of (serve scenario_prefix init_server)) (JStr ''u2'') = [''C2'']"
  by (simp_all add: scenario_prefix_def user_descriptor_def run_defs)

lemma added_append: "added s (s\<lparr>sent := sent s @ ps, ran := x\<rparr>) = ps"
  by (simp add: added_def)

subsection \<open>Typing indicators\<close>

text \<open>
  Claim C4 says that \<open>typing\<close> and \<open>stop typing\<close> for a room reach every member of the room
  except the sender. The broadcast leaves out every member of the room named by the
  sender's socket id, so the claim holds with that exception, for a room identifier that
  is not an array or an object: the listener returns, the registry is unchanged, and the
  pushes added are one push of the event, without arguments, to each member of the room
  that is not in the room named by \<open>c\<close>, in joining order. Connection \<open>c\<close>, which is in
  that room from its connection on, is never among the recipients, also when it is a
  member of the room; when nobody else has joined the room named by \<open>c\<close>, the recipients
  are the members of the room other than \<open>c\<close>.
\<close>

theorem typing_broadcast:
  assumes "listeners s c = registered" and "\<not> is_ref room"
    and "c \<in> set (members s (JStr c))"
    and "ev = ''typing'' \<or> ev = ''stop typing''"
  shows "\<exists>s'. receive \<lparr>from_conn = c, name = ev, payload = [room]\<rparr> s = Returned s'
           \<and> rooms s' = rooms s
           \<and> sent s' = sent s @ added s s'
           \<and> map recipient (added s s')
               = filter (\<lambda>m. m \<notin> set (members s (JStr c))) (members s room)
           \<and> (\<forall>p\<in>set (added s s'). event p = ev \<and> args p = [])
           \<and> c \<notin> recipient ` set (added s s')
           \<and> (members s (JStr c) = [c]
                \<longrightarrow> map recipient (added s s') = filter (\<lambda>m. m \<noteq> c) (members s room))"
proof -
  define cb where "cb = (if ev = ''typing'' then TypingCb else StopTypingCb)"
  let ?ps = "fanout c room ev [] s"
  let ?s' = "s\<lparr>sent := sent s @ ?ps, ran := ran s @ [(c, cb)]\<rparr>"
  have r: "receive \<lparr>from_conn = c, name = ev, payload = [room]\<rparr> s = Returned ?s'"
    using assms(4)
    by (auto simp: cb_def receive_registered [OF assms(1)] invoke_def on_typing_def
        on_stop_typing_def sock_in_emit_def fanout_def members_def)
  have a: "added s ?s' = ?ps" by (rule added_append)
  have m: "map recipient ?ps = filter (\<lambda>m. m \<notin> set (members s (JStr c))) (members s room)"
    by (simp add: fanout_def comp_def)
  have e: "\<forall>p\<in>set ?ps. event p = ev \<and> args p = []" by (auto simp: fanout_def)
  have n: "c \<notin> recipient ` set ?ps" using assms(3) by (auto simp: fanout_def)
  have o: "members s (JStr c) = [c]
             \<longrightarrow> map recipient ?ps = filter (\<lambda>m. m \<noteq> c) (members s room)"
    by (simp add: fanout_def comp_def)
  from r a m e n o show ?thesis by (intro exI [of _ ?s']) simp
qed

theorem typing_broadcast_witness:
  "listeners (state_of (serve scenario_prefix init_server)) ''C1'' = registered
   \<and> members (state_of (serve scenario_prefix init_server)) (JStr ''conv1'') = [''C1'', ''C2'']
   \<and> members (state_of (serve scenario_prefix init_server)) (JStr ''C1'') = [''C1'']
   \<and> (\<exists>s'. receive \<lparr>from_conn = ''C1'', name = ''typing'', payload = [JStr ''conv1'']\<rparr>
              (state_of (serve scenario_prefix init_server)) = Returned s'
           \<and> map recipient (added (state_of (serve scenario_prefix init_server)) s') = [''C2''])"
proof -
  let ?s = "state_of (serve scenario_prefix init_server)"
  have own: "''C1'' \<in> set (members ?s (JStr ''C1''))" by (simp add: scenario_prefix_members)
  have nr: "\<not> is_ref (JStr ''conv1'')" by simp
  from typing_broadcast [OF scenario_prefix_listeners nr own, of "''typing''"]
  obtain s' where
    "receive \<lparr>from_conn = ''C1'', name = ''typing'', payload = [JStr ''conv1'']\<rparr> ?s = Returned s'"
    and "map recipient (added ?s s')
          = filter (\<lambda>m. m \<notin> set (members ?s (JStr ''C1''))) (members ?s (JStr ''conv1''))"
    by auto
  then have "\<exists>s'. receive \<lparr>from_conn = ''C1'', name = ''typing'', payload = [JStr ''conv1'']\<rparr> ?s
                 = Returned s' \<and> map recipient (added ?s s') = [''C2'']"
    by (simp add: scenario_prefix_members)
  with scenario_prefix_listeners scenario_prefix_members show ?thesis by blast
qed

text \<open>
  Connection \<open>C2\<close> has joined the room named by the socket id of \<open>C1\<close>, and both are
  members of \<open>conv1\<close>. When \<open>C1\<close> sends \<open>typing\<close> for \<open>conv1\<close>, nothing is pushed: \<open>C2\<close>, a
  member of the room other than the sender, does not receive the event.
\<close>

theorem typing_own_room_counterexample:
  "members (state_of (serve own_room_prefix init_server)) (JStr ''conv1'') = [''C1'', ''C2'']
   \<and> sent (state_of (serve own_room_prefix init_server)) = []
   \<and> returned (serve (own_room_prefix @
        [Inbound \<lparr>from_conn = ''C1'', name = ''typing'', payload = [JStr ''conv1'']\<rparr>]) init_server)
   \<and> sent (state_of (serve (own_room_prefix @
        [Inbound \<lparr>from_conn = ''C1'', name = ''typing'', payload = [JStr ''conv1'']\<rparr>]) init_server))
      = []"
  by (simp add: own_room_prefix_def run_defs)

subsection \<open>Setup\<close>

text \<open>
  Claim C5: when connection \<open>c\<close> sends \<open>setup\<close> with a payload whose identifier can be read
  (any payload other than \<open>undefined\<close> and \<open>null\<close>) and is not an array or an object, the
  listener returns, \<open>c\<close> is a member of the room keyed by that identifier, after the
  room's earlier members and once, no other room changes, and exactly one push is added:
  \<open>connected\<close>, to \<open>c\<close> itself.
\<close>

theorem setup_joins_and_replies:
  assumes "listeners s c = registered" and "get_prop userData ''_id'' = Inr uid"
    and "\<not> is_ref uid"
  shows "\<exists>s'. receive \<lparr>from_conn = c, name = ''setup'', payload = [userData]\<rparr> s = Returned s'
           \<and> c \<in> set (members s' uid)
           \<and> members s' uid
               = (if c \<in> set (members s uid) then members s uid else members s uid @ [c])
           \<and> (\<forall>r. r \<noteq> uid \<longrightarrow> members s' r = members s r)
           \<and> sent s' = sent s @ [\<lparr>recipient = c, event = ''connected'', args = []\<rparr>]"
  using assms(2)
  by (simp add: receive_registered [OF assms(1)] invoke_def on_setup_def sock_emit_def
        sock_join_def members_def)

theorem setup_joins_and_replies_witness:
  "listeners (accept ''C1'' init_server) ''C1'' = registered
   \<and> get_prop (user_descriptor ''u1'') ''_id'' = Inr (JStr ''u1'')
   \<and> \<not> is_ref (JStr ''u1'')
   \<and> (\<exists>s'. receive \<lparr>from_conn = ''C1'', name = ''setup'', payload = [user_descriptor ''u1'']\<rparr>
              (accept ''C1'' init_server) = Returned s'
           \<and> members s' (JStr ''u1'') = [''C1'']
           \<and> sent s' = [\<lparr>recipient = ''C1'', event = ''connected'', args = []\<rparr>])"
proof -
  let ?s = "accept ''C1'' init_server"
  have l: "listeners ?s ''C1'' = registered" by (rule accept_listeners)
  have g: "get_prop (user_descriptor ''u1'') ''_id'' = Inr (JStr ''u1'')"
    by (simp add: user_descriptor_def)
  have nr: "\<not> is_ref (JStr ''u1'')" by simp
  have e: "sent ?s = []"
    by (simp add: accept_def on_connection_def console_log_def sock_join_def init_server_def)
  from setup_joins_and_replies [OF l g nr] obtain s' where
    "receive \<lparr>from_conn = ''C1'', name = ''setup'', payload = [user_descriptor ''u1'']\<rparr> ?s
       = Returned s'"
    and "members s' (JStr ''u1'')
          = (if ''C1'' \<in> set (members ?s (JStr ''u1'')) then members ?s (JStr ''u1'')
             else members ?s (JStr ''u1'') @ [''C1''])"
    and "sent s' = sent ?s @ [\<lparr>recipient = ''C1'', event = ''connected'', args = []\<rparr>]"
    by blast
  then have "\<exists>s'. receive \<lparr>from_conn = ''C1'', name = ''setup'', payload = [user_descriptor ''u1'']\<rparr>
              ?s = Returned s'
           \<and> members s' (JStr ''u1'') = [''C1'']
           \<and> sent s' = [\<lparr>recipient = ''C1'', event = ''connected'', args = []\<rparr>]"
    by (simp add: accept_init_members e)
  with l g nr show ?thesis by blast
qed

subsection \<open>Malformed \<open>new message\<close> payloads\<close>

text \<open>
  Claim C1 says that a \<open>new message\<close> event whose \<open>chat.users\<close> is missing or is not a
  collection makes no push and does not crash, whatever the shape of the payload, also
  with no \<open>chat\<close> field at all. The listener guards only against a falsy \<open>chat.users\<close>
  on a present \<open>chat\<close>: the payload \<open>{}\<close> throws at the read of \<open>chat.users\<close>, the payload
  \<open>{chat: {users: 5}}\<close> throws at the call of \<open>forEach\<close>, and the exception leaves the
  listener, so the run of the server ends.
\<close>

theorem new_message_malformed_throws:
  "on_new_message c (JObj []) s = Thrown (TypeError (ReadOfNullish ''users'')) s
   \<and> on_new_message c (JObj [(''chat'', JObj [(''users'', JNum (Finite 5))])]) s
       = Thrown (TypeError (NotAFunction ''chat.users.forEach'')) s
   \<and> \<not> returned (serve [Connection c,
          Inbound \<lparr>from_conn = c, name = ''new message'', payload = [JObj []]\<rparr>] init_server)"
  by (simp add: run_defs)

subsection \<open>The scenario\<close>

text \<open>
  Claim C8: after both connections have sent \<open>setup\<close> and joined \<open>conv1\<close>, a \<open>typing\<close>
  event from connection \<open>C1\<close> for \<open>conv1\<close> is pushed to connection \<open>C2\<close> only, and the
  following \<open>new message\<close> from \<open>C1\<close>, with recipients u1 and u2 and sender u1, is pushed
  to \<open>C2\<close> only. The pushes before them are the two \<open>connected\<close> replies.
\<close>

theorem scenario_typing_then_message:
  "sent (state_of (serve (scenario_prefix @
      [Inbound \<lparr>from_conn = ''C1'', name = ''typing'', payload = [JStr ''conv1'']\<rparr>]) init_server))
    = [\<lparr>recipient = ''C1'', event = ''connected'', args = []\<rparr>,
       \<lparr>recipient = ''C2'', event = ''connected'', args = []\<rparr>,
       \<lparr>recipient = ''C2'', event = ''typing'', args = []\<rparr>]
   \<and> sent (state_of (serve (scenario_prefix @
      [Inbound \<lparr>from_conn = ''C1'', name = ''typing'', payload = [JStr ''conv1'']\<rparr>,
       Inbound \<lparr>from_conn = ''C1'', name = ''new message'', payload = [scenario_message]\<rparr>]) init_server))
    = [\<lparr>recipient = ''C1'', event = ''connected'', args = []\<rparr>,
       \<lparr>recipient = ''C2'', event = ''connected'', args = []\<rparr>,
       \<lparr>recipient = ''C2'', event = ''typing'', args = []\<rparr>,
       \<lparr>recipient = ''C2'', event = ''message recieved'', args = [scenario_message]\<rparr>]"
  by (simp add: scenario_prefix_def scenario_message_def user_descriptor_def run_defs)

subsection \<open>What the listeners change\<close>

lemma for_each_callback_frame:
  "rooms (state_of (for_each_callback c msg d s)) = rooms s
   \<and> listeners (state_of (for_each_callback c msg d s)) = listeners s
   \<and> ran (state_of (for_each_callback c msg d s)) = ran s
   \<and> console (state_of (for_each_callback c msg d s)) = console s"
  by (simp add: for_each_callback_def sock_in_emit_def split: sum.split bool.split)

lemma for_each_frame:
  "rooms (state_of (for_each c msg ds s)) = rooms s
   \<and> listeners (state_of (for_each c msg ds s)) = listeners s
   \<and> ran (state_of (for_each c msg ds s)) = ran s
   \<and> console (state_of (for_each c msg ds s)) = console s"
proof (induction ds arbitrary: s)
  case Nil
  then show ?case by simp
next
  case (Cons d ds)
  show ?case
  proof (cases "for_each_callback c msg d s")
    case (Returned s1)
    with for_each_callback_frame [of c msg d s] Cons.IH [of s1] show ?thesis by simp
  next
    case (Thrown e s1)
    with for_each_callback_frame [of c msg d s] show ?thesis by simp
  qed
qed

lemma on_new_message_frame:
  "rooms (state_of (on_new_message c msg s)) = rooms s
   \<and> listeners (state_of (on_new_message c msg s)) = listeners s
   \<and> ran (state_of (on_new_message c msg s)) = ran s
   \<and> set (console (state_of (on_new_message c msg s)))
       \<subseteq> insert ''chat.users not defined'' (set (console s))"
  using for_each_frame
  by (auto simp add: on_new_message_def console_log_def split: sum.split jsval.split)

lemma body_frame:
  assumes "cb \<noteq> TeardownCb"
  shows "rooms (state_of (body cb c a s)) = join_opt c (joined_room cb a) (rooms s)
   \<and> listeners (state_of (body cb c a s)) = listeners s
   \<and> ran (state_of (body cb c a s)) = ran s
   \<and> (''USER DISCONNECTED'' \<in> set (console (state_of (body cb c a s)))
        \<longrightarrow> ''USER DISCONNECTED'' \<in> set (console s))"
proof (cases cb)
  case SetupCb
  then show ?thesis
    by (simp add: on_setup_def sock_emit_def sock_join_def join_opt_def split: sum.split)
next
  case JoinChatCb
  then show ?thesis
    by (simp add: on_join_chat_def console_log_def sock_join_def join_opt_def Let_def
        split: sum.split)
next
  case TypingCb
  then show ?thesis by (simp add: on_typing_def sock_in_emit_def join_opt_def)
next
  case StopTypingCb
  then show ?thesis by (simp add: on_stop_typing_def sock_in_emit_def join_opt_def)
next
  case NewMessageCb
  with on_new_message_frame [of c a s] show ?thesis by (auto simp: join_opt_def)
next
  case TeardownCb
  with assms show ?thesis by simp
qed

lemma invoke_frame:
  assumes "cb \<noteq> TeardownCb"
  shows "rooms (state_of (invoke cb c as s)) = join_opt c (joined_room cb (first_arg as)) (rooms s)
   \<and> listeners (state_of (invoke cb c as s)) = listeners s
   \<and> ran (state_of (invoke cb c as s)) = ran s @ [(c, cb)]
   \<and> (''USER DISCONNECTED'' \<in> set (console (state_of (invoke cb c as s)))
        \<longrightarrow> ''USER DISCONNECTED'' \<in> set (console s))"
  using body_frame [OF assms, of c "first_arg as" "s\<lparr>ran := ran s @ [(c, cb)]\<rparr>"]
  by (simp add: invoke_def)

lemma join_opt_mono: "set (rs r) \<subseteq> set (join_opt c ro rs r)"
  by (auto simp: join_opt_def split: option.split)

lemma run_listeners_quiet:
  assumes "TeardownCb \<notin> set cbs" and "quiet s"
  shows "quiet (state_of (run_listeners cbs c as s))
       \<and> (\<forall>r. set (rooms s r) \<subseteq> set (rooms (state_of (run_listeners cbs c as s)) r))"
  using assms
proof (induction cbs arbitrary: s)
  case Nil
  then show ?case by simp
next
  case (Cons cb cbs)
  then have ne: "cb \<noteq> TeardownCb" and rest: "TeardownCb \<notin> set cbs" by auto
  let ?s1 = "state_of (invoke cb c as s)"
  have q1: "quiet ?s1"
    using invoke_frame [OF ne, of c as s] Cons.prems(2) ne by (auto simp: quiet_def)
  have m1: "\<forall>r. set (rooms s r) \<subseteq> set (rooms ?s1 r)"
    using invoke_frame [OF ne, of c as s] join_opt_mono by simp
  show ?case
  proof (cases "invoke cb c as s")
    case (Returned s1)
    with q1 m1 Cons.IH [OF rest, of s1] show ?thesis by fastforce
  next
    case (Thrown e s1)
    with q1 m1 show ?thesis by simp
  qed
qed

lemma receive_quiet:
  assumes "quiet s"
  shows "quiet (state_of (receive ev s))
       \<and> (\<forall>r. set (rooms s r) \<subseteq> set (rooms (state_of (receive ev s)) r))"
proof -
  have "TeardownCb \<notin> set (map snd (filter (\<lambda>l. fst l = name ev) (listeners s (from_conn ev))))"
    using assms by (auto simp: quiet_def)
  from run_listeners_quiet [OF this assms] show ?thesis by (simp add: receive_def)
qed

lemma accept_quiet:
  assumes "quiet s"
  shows "quiet (accept c s) \<and> (\<forall>r. set (rooms s r) \<subseteq> set (rooms (accept c s) r))"
  using assms
  by (auto simp: quiet_def accept_def on_connection_def console_log_def sock_join_def
      registered_eq)

lemma serve_quiet:
  assumes "quiet s"
  shows "quiet (state_of (serve ins s))
       \<and> (\<forall>r. set (rooms s r) \<subseteq> set (rooms (state_of (serve ins s)) r))"
  using assms
proof (induction ins arbitrary: s)
  case Nil
  then show ?case by simp
next
  case (Cons i ins)
  show ?case
  proof (cases i)
    case (Connection c)
    with accept_quiet [OF Cons.prems, of c] Cons.IH [of "accept c s"]
    show ?thesis by fastforce
  next
    case (Inbound ev)
    show ?thesis
    proof (cases "receive ev s")
      case (Returned s1)
      with Inbound receive_quiet [OF Cons.prems, of ev] Cons.IH [of s1] show ?thesis
        by fastforce
    next
      case (Thrown e s1)
      with Inbound receive_quiet [OF Cons.prems, of ev] show ?thesis by simp
    qed
  qed
qed

lemma serve_append:
  "serve (ins @ later) s =
     (case serve ins s of Thrown e s' \<Rightarrow> Thrown e s' | Returned s' \<Rightarrow> serve later s')"
proof (induction ins arbitrary: s)
  case Nil
  then show ?case by simp
next
  case (Cons i ins)
  then show ?case by (cases i) (simp_all split: outcome.split)
qed

lemma quiet_init: "quiet init_server"
  by (simp add: quiet_def init_server_def)

subsection \<open>The teardown callback\<close>

text \<open>
  Claim C9: the callback passed to \<open>socket.off('setup', ...)\<close> is not in the listener table
  that the connection handler builds, and over every sequence of connections and inbound
  events (of any name, \<open>disconnect\<close> included, with any arguments) it is never invoked:
  no invocation is recorded, its console line never appears, and no member of any room is
  ever removed by the events that follow.
\<close>

theorem teardown_never_runs:
  "TeardownCb \<notin> snd ` set registered
   \<and> (c, TeardownCb) \<notin> set (ran (state_of (serve ins init_server)))
   \<and> ''USER DISCONNECTED'' \<notin> set (console (state_of (serve ins init_server)))
   \<and> set (members (state_of (serve ins init_server)) r)
       \<subseteq> set (members (state_of (serve (ins @ later) init_server)) r)"
proof -
  let ?s1 = "state_of (serve ins init_server)"
  have q: "quiet ?s1" using serve_quiet [OF quiet_init] by simp
  have a: "TeardownCb \<notin> snd ` set registered" by (simp add: registered_eq)
  have b: "(c, TeardownCb) \<notin> set (ran ?s1)" using q by (force simp: quiet_def)
  have d: "''USER DISCONNECTED'' \<notin> set (console ?s1)" using q by (simp add: quiet_def)
  have e: "set (members ?s1 r) \<subseteq> set (members (state_of (serve (ins @ later) init_server)) r)"
  proof (cases "serve ins init_server")
    case (Returned s1)
    with q serve_quiet [of s1 later] show ?thesis
      by (simp add: serve_append members_def)
  next
    case (Thrown e s1)
    then show ?thesis by (simp add: serve_append)
  qed
  from a b d e show ?thesis by blast
qed

subsection \<open>Joining rooms\<close>

lemma receive_event_room:
  assumes "listeners s c = registered" and "from_conn ev = c"
  shows "rooms (state_of (receive ev s)) = join_opt c (event_room ev) (rooms s)
       \<and> listeners (state_of (receive ev s)) = listeners s"
proof -
  consider (is_setup) "name ev = ''setup''" | (join) "name ev = ''join chat''"
    | (typing) "name ev = ''typing''" | (stop) "name ev = ''stop typing''"
    | (msg) "name ev = ''new message''"
    | (other) "name ev \<notin> {''setup'', ''join chat'', ''typing'', ''stop typing'', ''new message''}"
    by blast
  then show ?thesis
  proof cases
    case is_setup
    have "receive ev s = invoke SetupCb c (payload ev) s"
      using assms is_setup by (simp add: receive_def registered_eq split: outcome.split)
    with invoke_frame [of SetupCb c "payload ev" s] is_setup show ?thesis
      by (simp add: event_room_def)
  next
    case join
    have "receive ev s = invoke JoinChatCb c (payload ev) s"
      using assms join by (simp add: receive_def registered_eq split: outcome.split)
    with invoke_frame [of JoinChatCb c "payload ev" s] join show ?thesis
      by (simp add: event_room_def)
  next
    case typing
    have "receive ev s = invoke TypingCb c (payload ev) s"
      using assms typing by (simp add: receive_def registered_eq split: outcome.split)
    with invoke_frame [of TypingCb c "payload ev" s] typing show ?thesis
      by (simp add: event_room_def join_opt_def)
  next
    case stop
    have "receive ev s = invoke StopTypingCb c (payload ev) s"
      using assms stop by (simp add: receive_def registered_eq split: outcome.split)
    with invoke_frame [of StopTypingCb c "payload ev" s] stop show ?thesis
      by (simp add: event_room_def join_opt_def)
  next
    case msg
    have "receive ev s = invoke NewMessageCb c (payload ev) s"
      using assms msg by (simp add: receive_def registered_eq split: outcome.split)
    with invoke_frame [of NewMessageCb c "payload ev" s] msg show ?thesis
      by (simp add: event_room_def join_opt_def)
  next
    case other
    then have "receive ev s = Returned s"
      using assms by (auto simp add: receive_def registered_eq)
    with other show ?thesis by (simp add: event_room_def join_opt_def)
  qed
qed

lemma join_opt_idem: "join_opt c ro (join_opt c ro rs) = join_opt c ro rs"
  by (auto simp: join_opt_def split: option.split)

lemma serve_replicate_join:
  assumes "listeners s c = registered" and "from_conn ev = c"
  shows "rooms (state_of (serve (replicate (Suc n) (Inbound ev)) s)) = join_opt c (event_room ev) (rooms s)"
  using assms(1)
proof (induction n arbitrary: s)
  case 0
  with receive_event_room [OF _ assms(2), of s] show ?case
    by (cases "receive ev s") simp_all
next
  case (Suc n)
  show ?case
  proof (cases "receive ev s")
    case (Returned s1)
    with receive_event_room [OF Suc.prems assms(2)]
    have r: "rooms s1 = join_opt c (event_room ev) (rooms s)" and l: "listeners s1 c = registered"
      using Suc.prems by simp_all
    from Suc.IH [OF l] r Returned show ?thesis by (simp add: join_opt_idem)
  next
    case (Thrown e s1)
    with receive_event_room [OF Suc.prems assms(2)] show ?thesis by simp
  qed
qed

lemma serve_replicate_returned:
  assumes "from_conn ev = c" and "name ev = ''join chat''" and "to_string (first_arg (payload ev)) = Inr t"
  shows "listeners s c = registered \<Longrightarrow> returned (serve (replicate n (Inbound ev)) s)"
proof (induction n arbitrary: s)
  case 0
  then show ?case by simp
next
  case (Suc n)
  have rc: "receive ev s = invoke JoinChatCb c (payload ev) s"
    using assms Suc.prems by (simp add: receive_def registered_eq split: outcome.split)
  then obtain s1 where s1: "receive ev s = Returned s1" 
    using assms(3) by (simp add: invoke_def on_join_chat_def Let_def)
  with receive_event_room [OF Suc.prems assms(1)] have "listeners s1 c = registered"
    using Suc.prems by simp
  from Suc.IH [OF this] s1 show ?case by simp
qed

text \<open>
  An event whose name is not one of the five registered ones has no listener: the source
  reacts to nothing else. The states reached from the initial one satisfy the hypotheses
  used in the claims.
\<close>

lemma unregistered_event_ignored:
  assumes "listeners s (from_conn ev) = registered"
    and "name ev \<notin> {''setup'', ''join chat'', ''typing'', ''stop typing'', ''new message''}"
  shows "receive ev s = Returned s"
  using assms by (auto simp add: receive_def registered_eq)

lemma join_opt_distinct: "distinct (rs r) \<Longrightarrow> distinct (join_opt c ro rs r)"
  by (auto simp: join_opt_def split: option.split)

lemma receive_sound:
  assumes "sound s"
  shows "sound (state_of (receive ev s))"
proof (cases "listeners s (from_conn ev) = registered")
  case True
  note step = receive_event_room [OF True refl]
  have "\<forall>c. listeners s c = registered \<longrightarrow> c \<in> set (rooms (state_of (receive ev s)) (JStr c))"
    using step assms join_opt_mono [of "rooms s"] by (fastforce simp: sound_def)
  with step assms join_opt_distinct show ?thesis
    by (simp add: sound_def)
next
  case False
  with assms have "listeners s (from_conn ev) = []" by (auto simp: sound_def)
  then have "receive ev s = Returned s" by (simp add: receive_def)
  with assms show ?thesis by simp
qed

lemma accept_sound: "sound s \<Longrightarrow> sound (accept c s)"
  by (auto simp: sound_def accept_def on_connection_def console_log_def sock_join_def)

lemma serve_sound: "sound s \<Longrightarrow> sound (state_of (serve ins s))"
proof (induction ins arbitrary: s)
  case Nil
  then show ?case by simp
next
  case (Cons i ins)
  show ?case
  proof (cases i)
    case (Connection c)
    with Cons.IH [OF accept_sound [OF Cons.prems, of c]] show ?thesis by simp
  next
    case (Inbound ev)
    show ?thesis
    proof (cases "receive ev s")
      case (Returned s1)
      with receive_sound [OF Cons.prems, of ev] have "sound s1" by simp
      from Cons.IH [OF this] Inbound Returned show ?thesis by simp
    next
      case (Thrown e s1)
      with receive_sound [OF Cons.prems, of ev] Inbound show ?thesis by simp
    qed
  qed
qed

lemma registered_not_empty: "registered \<noteq> []" "[] \<noteq> registered"
  by (simp_all add: registered_eq)

lemma reachable_sound: "sound (state_of (serve ins init_server))"
  by (rule serve_sound) (simp add: sound_def init_server_def registered_not_empty)

lemma reachable_distinct: "distinct (members (state_of (serve ins init_server)) r)"
  using reachable_sound [of ins] by (simp add: sound_def members_def)

lemma reachable_own_room:
  "listeners (state_of (serve ins init_server)) c = registered
   \<Longrightarrow> c \<in> set (members (state_of (serve ins init_server)) (JStr c))"
  using reachable_sound [of ins] by (simp add: sound_def members_def)

lemma count_list_distinct:
  "distinct xs \<Longrightarrow> count_list xs x = (if x \<in> set xs then 1 else 0)"
  by (induction xs) auto

lemma to_string_primitive: "\<not> is_ref r \<Longrightarrow> \<exists>t. to_string r = Inr t"
  by (cases r) simp_all

text \<open>
  Claim C6: joining is idempotent. For a room identifier that is not an array or an
  object, in a state whose member list of the room has no duplicate, any positive number
  of \<open>join chat\<close> events for the room from connection \<open>c\<close> all return, after them the room
  contains \<open>c\<close> exactly once, and every room has the members it has after a single such
  event. That a member is not added twice is the library's set of members, as modelled
  in \<open>sock_join\<close>; that the listener does nothing else to the registry is the source's.
\<close>

theorem join_chat_idempotent:
  assumes "listeners s c = registered" and "\<not> is_ref room"
    and "distinct (members s room)"
  shows "returned (serve (replicate (Suc n)
            (Inbound \<lparr>from_conn = c, name = ''join chat'', payload = [room]\<rparr>)) s)
       \<and> count_list (members (state_of (serve (replicate (Suc n)
            (Inbound \<lparr>from_conn = c, name = ''join chat'', payload = [room]\<rparr>)) s)) room) c = 1
       \<and> rooms (state_of (serve (replicate (Suc n)
            (Inbound \<lparr>from_conn = c, name = ''join chat'', payload = [room]\<rparr>)) s))
         = rooms (state_of (serve [Inbound \<lparr>from_conn = c, name = ''join chat'', payload = [room]\<rparr>] s))"
proof -
  let ?ev = "\<lparr>from_conn = c, name = ''join chat'', payload = [room]\<rparr>"
  have er: "event_room ?ev = Some room" by (simp add: event_room_def)
  have n: "rooms (state_of (serve (replicate (Suc n) (Inbound ?ev)) s))
             = join_opt c (Some room) (rooms s)"
    using serve_replicate_join [OF assms(1), of ?ev n] er by simp
  have one: "rooms (state_of (serve [Inbound ?ev] s)) = join_opt c (Some room) (rooms s)"
    using serve_replicate_join [OF assms(1), of ?ev 0] er by simp
  have cnt: "count_list (join_opt c (Some room) (rooms s) room) c = 1"
    using assms(3) by (simp add: join_opt_def members_def count_list_distinct)
  from to_string_primitive [OF assms(2)] obtain t where "to_string room = Inr t" by blast
  then have ret: "returned (serve (replicate (Suc n) (Inbound ?ev)) s)"
    using serve_replicate_returned [of ?ev c t s "Suc n"] assms(1) by simp
  from n one cnt ret show ?thesis by (simp add: members_def)
qed

theorem join_chat_idempotent_witness:
  "listeners (accept ''C1'' init_server) ''C1'' = registered
   \<and> \<not> is_ref (JStr ''conv1'')
   \<and> distinct (members (accept ''C1'' init_server) (JStr ''conv1''))
   \<and> returned (serve (replicate (Suc 2)
            (Inbound \<lparr>from_conn = ''C1'', name = ''join chat'', payload = [JStr ''conv1'']\<rparr>))
            (accept ''C1'' init_server))
   \<and> count_list (members (state_of (serve (replicate (Suc 2)
            (Inbound \<lparr>from_conn = ''C1'', name = ''join chat'', payload = [JStr ''conv1'']\<rparr>))
            (accept ''C1'' init_server))) (JStr ''conv1'')) ''C1'' = 1"
proof -
  have l: "listeners (accept ''C1'' init_server) ''C1'' = registered"
    by (rule accept_listeners)
  have nr: "\<not> is_ref (JStr ''conv1'')" by simp
  have d: "distinct (members (accept ''C1'' init_server) (JStr ''conv1''))"
    by (simp add: accept_init_members)
  from join_chat_idempotent [OF l nr d, of 2] l nr d show ?thesis by blast
qed

subsection \<open>Personal rooms of a connection\<close>

lemma serve_events_rooms:
  assumes "\<forall>ev\<in>set evs. from_conn ev = c"
  shows "listeners s c = registered \<Longrightarrow>
         c \<in> set (rooms (state_of (serve (map Inbound evs) s)) r) \<Longrightarrow>
         c \<in> set (rooms s r) \<or> Some r \<in> event_room ` set evs"
  using assms
proof (induction evs arbitrary: s)
  case Nil
  then show ?case by simp
next
  case (Cons ev evs)
  then have fc: "from_conn ev = c" and rest: "\<forall>ev\<in>set evs. from_conn ev = c" by simp_all
  note step = receive_event_room [OF Cons.prems(1) fc]
  have one: "c \<in> set (rooms (state_of (receive ev s)) r) \<Longrightarrow>
             c \<in> set (rooms s r) \<or> event_room ev = Some r"
    using step by (auto simp: join_opt_def split: option.splits if_splits)
  show ?case
  proof (cases "receive ev s")
    case (Returned s1)
    with step Cons.prems(1) have l1: "listeners s1 c = registered" by simp
    from Cons.prems(2) Returned
    have "c \<in> set (rooms (state_of (serve (map Inbound evs) s1)) r)" by simp
    from Cons.IH [OF l1 this rest] have "c \<in> set (rooms s1 r) \<or> Some r \<in> event_room ` set evs" .
    with one Returned show ?thesis by force
  next
    case (Thrown e s1)
    with Cons.prems(2) one show ?thesis by force
  qed
qed

lemma serve_events_joined:
  assumes "\<forall>ev\<in>set evs. from_conn ev = c"
  shows "listeners s c = registered \<Longrightarrow>
         serve (map Inbound evs) s = Returned s' \<Longrightarrow>
         c \<in> set (rooms s r) \<or> Some r \<in> event_room ` set evs \<Longrightarrow>
         c \<in> set (rooms s' r)"
  using assms
proof (induction evs arbitrary: s)
  case Nil
  then show ?case by simp
next
  case (Cons ev evs)
  then have fc: "from_conn ev = c" and rest: "\<forall>ev\<in>set evs. from_conn ev = c" by simp_all
  note step = receive_event_room [OF Cons.prems(1) fc]
  from Cons.prems(2) obtain s1 where s1: "receive ev s = Returned s1"
    and run: "serve (map Inbound evs) s1 = Returned s'"
    by (cases "receive ev s") simp_all
  from step s1 Cons.prems(1) have l1: "listeners s1 c = registered"
    and r1: "rooms s1 = join_opt c (event_room ev) (rooms s)" by simp_all
  have "c \<in> set (rooms s1 r) \<or> Some r \<in> event_room ` set evs"
  proof (cases "c \<in> set (rooms s r)")
    case True
    with r1 join_opt_mono [of "rooms s" r c "event_room ev"] show ?thesis by auto
  next
    case False
    with Cons.prems(3) have "event_room ev = Some r \<or> Some r \<in> event_room ` set evs"
      by force
    then show ?thesis using r1 by (auto simp: join_opt_def)
  qed
  from Cons.IH [OF l1 run this rest] show ?case .
qed

text \<open>
  Claim C7 says that after its first \<open>setup\<close> a connection is in at most one personal
  room. The listener joins on every \<open>setup\<close> and nothing ever leaves, so after a sequence
  of its events, with identifiers that are not arrays or objects, that all return, a
  connection is a member of the personal room of every identifier read from one of its
  \<open>setup\<close> payloads, of two rooms when two of them differ. The claim holds only for the
  identifiers that the connection itself sends: when every identifier read from its
  \<open>setup\<close> payloads is \<open>u\<close>, each room the connection is in afterwards is a room it was in
  before (the room named by its socket id is one), the room of \<open>u\<close>, or a room it named
  in a \<open>join chat\<close> event.
\<close>

theorem rooms_of_connection:
  assumes "listeners s c = registered"
    and "\<forall>ev\<in>set evs. from_conn ev = c"
    and "\<forall>ev\<in>set evs. \<forall>r. event_room ev = Some r \<longrightarrow> \<not> is_ref r"
  shows "((\<forall>ev\<in>set evs. \<forall>v. name ev = ''setup''
              \<and> get_prop (first_arg (payload ev)) ''_id'' = Inr v \<longrightarrow> v = u)
          \<longrightarrow> (\<forall>r. c \<in> set (members (state_of (serve (map Inbound evs) s)) r) \<longrightarrow>
                 c \<in> set (members s r) \<or> r = u \<or> r \<in> set (join_chat_rooms evs)))
       \<and> (returned (serve (map Inbound evs) s)
          \<longrightarrow> (\<forall>ev\<in>set evs. \<forall>v. name ev = ''setup''
                 \<and> get_prop (first_arg (payload ev)) ''_id'' = Inr v
                 \<longrightarrow> c \<in> set (members (state_of (serve (map Inbound evs) s)) v)))"
proof (intro conjI impI allI ballI)
  fix r
  assume same: "\<forall>ev\<in>set evs. \<forall>v. name ev = ''setup''
              \<and> get_prop (first_arg (payload ev)) ''_id'' = Inr v \<longrightarrow> v = u"
    and "c \<in> set (members (state_of (serve (map Inbound evs) s)) r)"
  with serve_events_rooms [OF assms(2) assms(1), of r]
  have "c \<in> set (rooms s r) \<or> Some r \<in> event_room ` set evs" by (simp add: members_def)
  then show "c \<in> set (members s r) \<or> r = u \<or> r \<in> set (join_chat_rooms evs)"
  proof
    assume "c \<in> set (rooms s r)"
    then show ?thesis by (simp add: members_def)
  next
    assume "Some r \<in> event_room ` set evs"
    then obtain ev where ev: "ev \<in> set evs" "event_room ev = Some r" by force
    show ?thesis
    proof (cases "name ev = ''setup''")
      case True
      with ev(2) have "get_prop (first_arg (payload ev)) ''_id'' = Inr r"
        by (simp add: event_room_def split: sum.splits)
      with same ev(1) True show ?thesis by blast
    next
      case False
      with ev(2) have "name ev = ''join chat''" "first_arg (payload ev) = r"
        by (simp_all add: event_room_def split: if_splits)
      with ev(1) show ?thesis by (force simp: join_chat_rooms_def)
    qed
  qed
next
  fix ev v
  assume ret: "returned (serve (map Inbound evs) s)" and ev: "ev \<in> set evs"
    and "name ev = ''setup'' \<and> get_prop (first_arg (payload ev)) ''_id'' = Inr v"
  then have "event_room ev = Some v" by (simp add: event_room_def)
  with ev have "Some v \<in> event_room ` set evs" by force
  moreover from ret obtain s' where s': "serve (map Inbound evs) s = Returned s'"
    by (cases "serve (map Inbound evs) s") simp_all
  ultimately have "c \<in> set (rooms s' v)"
    using serve_events_joined [OF assms(2) assms(1) s', of v] by simp
  with s' show "c \<in> set (members (state_of (serve (map Inbound evs) s)) v)"
    by (simp add: members_def)
qed

text \<open>
  A connection that sends \<open>setup\<close> as u1 and then as u2 is a member of both personal
  rooms.
\<close>

theorem two_personal_rooms_counterexample:
  "members (state_of (serve (map Inbound two_setups) (accept ''C1'' init_server))) (JStr ''u1'')
     = [''C1'']
   \<and> members (state_of (serve (map Inbound two_setups) (accept ''C1'' init_server))) (JStr ''u2'')
     = [''C1'']
   \<and> returned (serve (map Inbound two_setups) (accept ''C1'' init_server))"
  by (simp add: two_setups_def user_descriptor_def run_defs)

theorem rooms_of_connection_witness:
  "listeners (accept ''C1'' init_server) ''C1'' = registered
   \<and> returned (serve (map Inbound same_setups) (accept ''C1'' init_server))
   \<and> ''C1'' \<notin> set (members (state_of (serve (map Inbound same_setups) (accept ''C1'' init_server)))
                  (JStr ''u2''))
   \<and> ''C1'' \<in> set (members (state_of (serve (map Inbound same_setups) (accept ''C1'' init_server)))
                  (JStr ''u1''))"
proof -
  let ?s = "accept ''C1'' init_server"
  let ?ev = "\<lparr>from_conn = ''C1'', name = ''setup'', payload = [user_descriptor ''u1'']\<rparr>"
  have l: "listeners ?s ''C1'' = registered" by (rule accept_listeners)
  have f: "\<forall>ev\<in>set same_setups. from_conn ev = ''C1''" by (simp add: same_setups_def)
  have nr: "\<forall>ev\<in>set same_setups. \<forall>r. event_room ev = Some r \<longrightarrow> \<not> is_ref r"
    by (auto simp: same_setups_def event_room_def user_descriptor_def)
  have g: "\<forall>ev\<in>set same_setups. \<forall>v. name ev = ''setup''
          \<and> get_prop (first_arg (payload ev)) ''_id'' = Inr v \<longrightarrow> v = JStr ''u1''"
    by (simp add: same_setups_def user_descriptor_def)
  have j: "JStr ''u2'' \<notin> set (join_chat_rooms same_setups)"
    by (simp add: same_setups_def join_chat_rooms_def)
  have i: "''C1'' \<notin> set (members ?s (JStr ''u2''))"
    by (simp add: accept_init_members)
  have ne: "JStr ''u2'' \<noteq> JStr ''u1''" by simp
  have ret: "returned (serve (map Inbound same_setups) ?s)"
    by (simp add: same_setups_def user_descriptor_def run_defs)
  have e: "?ev \<in> set same_setups" "name ?ev = ''setup''"
    "get_prop (first_arg (payload ?ev)) ''_id'' = Inr (JStr ''u1'')"
    by (simp_all add: same_setups_def user_descriptor_def)
  from rooms_of_connection [OF l f nr, of "JStr ''u1''"] g j i ne
  have a: "''C1'' \<notin> set (members (state_of (serve (map Inbound same_setups) ?s)) (JStr ''u2''))"
    by blast
  from rooms_of_connection [OF l f nr, of "JStr ''u1''"] ret e
  have b: "''C1'' \<in> set (members (state_of (serve (map Inbound same_setups) ?s)) (JStr ''u1''))"
    by blast
  from l ret a b show ?thesis by blast
qed


subsection \<open>Fan-out of \<open>new message\<close>\<close>

lemma fanout_update:
  "fanout c r ev as (s\<lparr>sent := x\<rparr>) = fanout c r ev as s"
  "fanout c r ev as (s\<lparr>ran := y\<rparr>) = fanout c r ev as s"
  by (simp_all add: fanout_def members_def)

lemma message_pushes_update:
  "message_pushes c msg r (s\<lparr>sent := x\<rparr>) = message_pushes c msg r s"
  "message_pushes c msg r (s\<lparr>ran := y\<rparr>) = message_pushes c msg r s"
  by (simp_all add: message_pushes_def members_def)

lemma fanout_message: "fanout c r ''message recieved'' [msg] s = message_pushes c msg r s"
  by (simp add: fanout_def message_pushes_def)









lemma string_ids_loose_eq: "loose_eq (JStr a) (JStr b) = Inr (a = b)"
  by (simp add: loose_eq_def prim_loose_eq_def)

lemma for_each_callback_descriptor:
  assumes "is_descriptor d" and "is_descriptor (field msg ''sender'')"
  shows "for_each_callback c msg d s =
           Returned (if field d ''_id'' = sender_id msg then s
                     else s\<lparr>sent := sent s @ message_pushes c msg (field d ''_id'') s\<rparr>)"
  using assms
  by (auto simp: for_each_callback_def is_descriptor_def field_def sender_id_def
      sock_in_emit_def string_ids_loose_eq fanout_message
      split: sum.splits jsval.splits bool.splits)

lemma for_each_well_formed:
  assumes "is_descriptor (field msg ''sender'')"
  shows "list_all is_descriptor ds \<Longrightarrow>
         for_each c msg ds s =
           Returned (s\<lparr>sent := sent s @ concat (map (\<lambda>d. message_pushes c msg (field d ''_id'') s)
                       (filter (\<lambda>d. field d ''_id'' \<noteq> sender_id msg) ds))\<rparr>)"
proof (induction ds arbitrary: s)
  case Nil
  then show ?case by simp
next
  case (Cons d ds)
  then have d: "is_descriptor d" and ds: "list_all is_descriptor ds" by simp_all
  show ?case
    by (simp add: for_each_callback_descriptor [OF d assms] Cons.IH [OF ds]
        message_pushes_update)
qed

text \<open>
  Claim C3 says that a well-formed \<open>new message\<close> is pushed to all connections in the
  personal room of each recipient other than the sender. The listener broadcasts with
  \<open>socket.in\<close>, which leaves out the members of the room named by the emitting socket's
  id: the sending connection itself and any connection that has joined that room. With
  that exception the claim holds: the event returns, the registry is unchanged, and the
  pushes added are, for each descriptor whose identifier differs from the sender's, in
  order, one \<open>message recieved\<close> carrying the received payload to each member of that
  identifier's room that is not in the room named by the sending connection; nothing is
  pushed for a descriptor with the sender's identifier, and nothing to the sending
  connection. When nobody else has joined the room named by the sending connection, the
  recipients of a broadcast are the room's members other than that connection.
\<close>

theorem new_message_fanout:
  assumes "listeners s c = registered" and "well_formed_message msg"
    and "c \<in> set (members s (JStr c))"
  shows "\<exists>s'. receive \<lparr>from_conn = c, name = ''new message'', payload = [msg]\<rparr> s = Returned s'
           \<and> rooms s' = rooms s
           \<and> sent s' = sent s @ added s s'
           \<and> added s s'
               = concat (map (\<lambda>d. message_pushes c msg (field d ''_id'') s)
                   (filter (\<lambda>d. field d ''_id'' \<noteq> sender_id msg) (users_of msg)))
           \<and> c \<notin> recipient ` set (added s s')
           \<and> (members s (JStr c) = [c]
                \<longrightarrow> (\<forall>r. map recipient (message_pushes c msg r s)
                          = filter (\<lambda>m. m \<noteq> c) (members s r)))"
proof -
  from assms(2) obtain chat ds where chat: "get_prop msg ''chat'' = Inr chat"
    and users: "get_prop chat ''users'' = Inr (JArr ds)"
    and ok: "list_all is_descriptor ds" and snd: "is_descriptor (field msg ''sender'')"
    by (auto simp: well_formed_message_def split: sum.splits jsval.splits)
  from chat users have u: "users_of msg = ds" by (simp add: users_of_def field_def)
  let ?ps = "concat (map (\<lambda>d. message_pushes c msg (field d ''_id'') s)
                   (filter (\<lambda>d. field d ''_id'' \<noteq> sender_id msg) (users_of msg)))"
  let ?s0 = "s\<lparr>ran := ran s @ [(c, NewMessageCb)]\<rparr>"
  let ?s' = "s\<lparr>sent := sent s @ ?ps, ran := ran s @ [(c, NewMessageCb)]\<rparr>"
  have "on_new_message c msg ?s0 = for_each c msg ds ?s0"
    using chat users by (simp add: on_new_message_def)
  then have r: "receive \<lparr>from_conn = c, name = ''new message'', payload = [msg]\<rparr> s = Returned ?s'"
    by (simp add: receive_registered [OF assms(1)] invoke_def for_each_well_formed [OF snd ok]
        u message_pushes_update)
  have a: "added s ?s' = ?ps" by (rule added_append)
  have n: "c \<notin> recipient ` set ?ps" using assms(3) by (auto simp: message_pushes_def)
  have o: "members s (JStr c) = [c]
             \<longrightarrow> (\<forall>r. map recipient (message_pushes c msg r s)
                       = filter (\<lambda>m. m \<noteq> c) (members s r))"
    by (simp add: message_pushes_def comp_def)
  from r a n o show ?thesis by (intro exI [of _ ?s']) simp
qed

theorem new_message_fanout_witness:
  "listeners (state_of (serve scenario_prefix init_server)) ''C1'' = registered
   \<and> well_formed_message scenario_message
   \<and> members (state_of (serve scenario_prefix init_server)) (JStr ''C1'') = [''C1'']
   \<and> (\<exists>s'. receive \<lparr>from_conn = ''C1'', name = ''new message'', payload = [scenario_message]\<rparr>
              (state_of (serve scenario_prefix init_server)) = Returned s'
           \<and> added (state_of (serve scenario_prefix init_server)) s'
               = [\<lparr>recipient = ''C2'', event = ''message recieved'', args = [scenario_message]\<rparr>])"
proof -
  let ?s = "state_of (serve scenario_prefix init_server)"
  have w: "well_formed_message scenario_message"
    by (simp add: well_formed_message_def scenario_message_def user_descriptor_def
        is_descriptor_def field_def)
  have own: "''C1'' \<in> set (members ?s (JStr ''C1''))" by (simp add: scenario_prefix_members)
  have u: "users_of scenario_message = [user_descriptor ''u1'', user_descriptor ''u2'']"
    by (simp add: users_of_def field_def scenario_message_def)
  have i: "sender_id scenario_message = JStr ''u1''"
    by (simp add: sender_id_def field_def scenario_message_def user_descriptor_def)
  have f: "field (user_descriptor ''u1'') ''_id'' = JStr ''u1''"
          "field (user_descriptor ''u2'') ''_id'' = JStr ''u2''"
    by (simp_all add: field_def user_descriptor_def)
  from new_message_fanout [OF scenario_prefix_listeners w own] obtain s' where
    "receive \<lparr>from_conn = ''C1'', name = ''new message'', payload = [scenario_message]\<rparr> ?s
       = Returned s'"
    and "added ?s s'
          = concat (map (\<lambda>d. message_pushes ''C1'' scenario_message (field d ''_id'') ?s)
              (filter (\<lambda>d. field d ''_id'' \<noteq> sender_id scenario_message)
                 (users_of scenario_message)))"
    by blast
  then have "\<exists>s'. receive \<lparr>from_conn = ''C1'', name = ''new message'', payload = [scenario_message]\<rparr>
              ?s = Returned s'
           \<and> added ?s s'
               = [\<lparr>recipient = ''C2'', event = ''message recieved'', args = [scenario_message]\<rparr>]"
    by (simp add: u i f message_pushes_def scenario_prefix_members)
  with scenario_prefix_listeners w scenario_prefix_members show ?thesis by blast
qed

text \<open>
  Connections \<open>C1\<close> and \<open>C2\<close> are both in the personal room of u2. Connection \<open>C1\<close> sends
  the scenario's message, whose recipient u2 differs from its sender u1: \<open>C2\<close> is pushed
  the message and \<open>C1\<close>, a member of the same personal room, is not.
\<close>

theorem sender_in_recipient_room_counterexample:
  "members (state_of (serve shared_room_prefix init_server)) (JStr ''u2'') = [''C1'', ''C2'']
   \<and> well_formed_message scenario_message
   \<and> sent (state_of (serve (shared_room_prefix @
        [Inbound \<lparr>from_conn = ''C1'', name = ''new message'', payload = [scenario_message]\<rparr>])
          init_server))
     = [\<lparr>recipient = ''C1'', event = ''connected'', args = []\<rparr>,
        \<lparr>recipient = ''C2'', event = ''connected'', args = []\<rparr>,
        \<lparr>recipient = ''C2'', event = ''message recieved'', args = [scenario_message]\<rparr>]"
  by (simp add: shared_room_prefix_def scenario_message_def user_descriptor_def run_defs
      well_formed_message_def is_descriptor_def field_def)

end
